theory Spec2Isabelle
  imports Complex_Main
begin

section \<open>Data model (src/types.ts)\<close>

text \<open>
  A TypeScript \<open>number\<close> is only stored and copied by the controller, never computed
  with, so it is carried as a \<open>real\<close>. An optional field \<open>f?: T\<close> is a \<open>T option\<close>.
  Strings are lists of 8-bit characters (the Latin-1 range of JavaScript's code units).
\<close>

type_synonym number = real

record NutritionData =
  calories :: number
  protein :: number
  carbs :: number
  fat :: number
  fiber :: "number option"
  sugar :: "number option"
  vitamins :: "string list option"

record RecipeStep =
  step :: number
  instruction :: string

record FoodData =
  food_name :: string
  confidence :: string
  nutrition :: NutritionData
  ingredients :: "string list"
  recipe :: "RecipeStep list"
  allergens :: "string list"
  serving_size :: string
  cuisine :: string
  classification :: string
  tips :: "string list option"

text \<open>The field \<open>id\<close> of \<open>AnalysisHistory\<close> is named \<open>id_h\<close>: \<open>id\<close> is HOL's identity.\<close>

record AnalysisHistory =
  id_h :: string
  timestamp :: number
  imageUrl :: string
  data :: FoodData

section \<open>The component state of \<open>App\<close> (src/App.tsx, lines 9-20)\<close>

text \<open>
  A value caught by \<open>catch (err: any)\<close>. \<open>Nullish\<close> is \<open>null\<close> or \<open>undefined\<close>:
  reading \<open>err.message\<close> of it throws a \<open>TypeError\<close>. Of any other value the handlers
  read only \<open>err.message\<close>, which is \<open>None\<close> when the value carries no such property.
\<close>

datatype thrown = Nullish | Thrown "string option"

text \<open>
  The \<open>video\<close> element behind \<open>videoRef\<close>. A \<open>MediaStream\<close> is named by a number;
  \<open>srcObject\<close> is the stream attached to the element, if any.
\<close>

record video_el =
  srcObject :: "nat option"

text \<open>
  An asynchronous operation that has been started and has not completed yet, with what
  its continuation has closed over. The continuation of \<open>handleAnalyze\<close> reads
  \<open>history\<close> after its \<open>await\<close>: that is the \<open>history\<close> of the render that created
  the handler, so the request carries it. \<open>FileReader.onloadend\<close> calls the
  \<open>handleAnalyze\<close> of the render in which the file was chosen.
\<close>

datatype request =
    GetUserMedia
  | ReadFile "AnalysisHistory list"
  | AnalyzeImage string "AnalysisHistory list"
  | AnalyzeName string

text \<open>
  The \<open>useState\<close> cells, then what the handlers reach outside React:
  \<open>videoRef.current\<close> (\<open>None\<close> while the \<open>video\<close> element is not mounted), the media
  streams whose tracks have not been stopped, the \<open>dark\<close> class of the document element,
  the two \<open>localStorage\<close> entries written by this component (the history entry holds
  \<open>JSON.stringify\<close> of the list recorded here), and the operations in flight.
\<close>

record state =
  isDarkMode :: bool
  isCameraActive :: bool
  capturedImage :: "string option"
  isAnalyzing :: bool
  foodData :: "FoodData option"
  error :: "string option"
  history :: "AnalysisHistory list"
  showHistory :: bool
  manualInput :: string
  videoRef :: "video_el option"
  liveStreams :: "nat list"
  darkClass :: bool
  nutrilens_theme :: "string option"
  nutrilens_history :: "AnalysisHistory list option"
  pending :: "request list"

definition initial :: state where
  "initial = \<lparr>isDarkMode = False, isCameraActive = False, capturedImage = None,
     isAnalyzing = False, foodData = None, error = None, history = [],
     showHistory = False, manualInput = [], videoRef = None, liveStreams = [],
     darkClass = False, nutrilens_theme = None, nutrilens_history = None,
     pending = []\<rparr>"

section \<open>JavaScript helpers\<close>

text \<open>\<open>x && ...\<close> on a \<open>string | null\<close>: \<open>null\<close> and the empty string are falsy.\<close>

definition truthy :: "string option \<Rightarrow> bool" where
  "truthy x = (case x of None \<Rightarrow> False | Some v \<Rightarrow> v \<noteq> [])"

text \<open>\<open>err.message || fallback\<close>; \<open>None\<close> when evaluating it throws.\<close>

definition message_or :: "thrown \<Rightarrow> string \<Rightarrow> string option" where
  "message_or err fallback =
     (case err of
        Nullish \<Rightarrow> None
      | Thrown m \<Rightarrow> Some (if truthy m then the m else fallback))"

text \<open>
  \<open>String.prototype.trim\<close>: white space and line terminators are removed at both ends.
  In the Latin-1 range these are TAB, LF, VT, FF, CR, SP and NBSP.
\<close>

definition isWhiteSpace :: "char \<Rightarrow> bool" where
  "isWhiteSpace c = (of_char c \<in> {9, 10, 11, 12, 13, 32, 160 :: nat})"

definition trim :: "string \<Rightarrow> string" where
  "trim s = rev (dropWhile isWhiteSpace (rev (dropWhile isWhiteSpace s)))"

text \<open>\<open>Number.prototype.toString\<close> on the integer that \<open>Date.now()\<close> returns.\<close>

definition digit_char :: "int \<Rightarrow> char" where
  "digit_char d = char_of (48 + d)"

function digits :: "int \<Rightarrow> string" where
  "digits n = (if n < 10 then [digit_char n] else digits (n div 10) @ [digit_char (n mod 10)])"
  by pat_completeness auto
termination
  by (relation "measure nat") auto

declare digits.simps [simp del]

definition toString :: "int \<Rightarrow> string" where
  "toString i = (if i < 0 then CHR ''-'' # digits (- i) else digits i)"

section \<open>The handlers (src/App.tsx, lines 34-139)\<close>

definition toggleTheme :: "state \<Rightarrow> state" where
  "toggleTheme s =
     (if \<not> isDarkMode s
      then s\<lparr>isDarkMode := True, darkClass := True, nutrilens_theme := Some ''dark''\<rparr>
      else s\<lparr>isDarkMode := False, darkClass := False, nutrilens_theme := Some ''light''\<rparr>)"

text \<open>
  \<open>startCamera\<close> up to its \<open>await\<close>: four state updates, then the request to
  \<open>getUserMedia\<close>. Nothing here looks at \<open>videoRef\<close> or stops a track.
\<close>

definition startCamera :: "state \<Rightarrow> state" where
  "startCamera s =
     s\<lparr>error := None, isCameraActive := True, capturedImage := None, foodData := None,
       pending := pending s @ [GetUserMedia]\<rparr>"

text \<open>
  \<open>getUserMedia\<close> resolved with a stream, which is live from then on;
  \<open>if (videoRef.current) videoRef.current.srcObject = stream\<close>.
\<close>

definition startCamera_resolved :: "nat \<Rightarrow> state \<Rightarrow> state" where
  "startCamera_resolved stream s =
     s\<lparr>liveStreams := stream # liveStreams s,
       videoRef := (case videoRef s of None \<Rightarrow> None
                    | Some v \<Rightarrow> Some (v\<lparr>srcObject := Some stream\<rparr>))\<rparr>"

text \<open>The \<open>catch\<close> branch of \<open>startCamera\<close>.\<close>

definition startCamera_rejected :: "state \<Rightarrow> state" where
  "startCamera_rejected s =
     s\<lparr>error := Some ''Unable to access camera. Please check permissions.'',
       isCameraActive := False\<rparr>"

text \<open>
  \<open>stopCamera\<close>: every track of the attached stream is stopped (stopping a track that has
  ended already does nothing), then \<open>setIsCameraActive(false)\<close>.
\<close>

definition stopCamera :: "state \<Rightarrow> state" where
  "stopCamera s =
     s\<lparr>liveStreams :=
         (case videoRef s of
            None \<Rightarrow> liveStreams s
          | Some v \<Rightarrow> (case srcObject v of
                None \<Rightarrow> liveStreams s
              | Some stream \<Rightarrow> removeAll stream (liveStreams s))),
       isCameraActive := False\<rparr>"

text \<open>
  \<open>handleAnalyze\<close> up to its \<open>await\<close>. The first argument is the \<open>history\<close> that the
  running closure sees.
\<close>

definition handleAnalyze :: "AnalysisHistory list \<Rightarrow> string \<Rightarrow> state \<Rightarrow> state" where
  "handleAnalyze hist img s =
     s\<lparr>isAnalyzing := True, error := None,
       pending := pending s @ [AnalyzeImage img hist]\<rparr>"

definition newHistory :: "string \<Rightarrow> FoodData \<Rightarrow> int \<Rightarrow> int \<Rightarrow> AnalysisHistory" where
  "newHistory img result now1 now2 =
     \<lparr>id_h = toString now1, timestamp = of_int now2, imageUrl = img, data = result\<rparr>"

text \<open>
  \<open>analyzeFoodImage\<close> resolved with \<open>result\<close>; \<open>now1\<close> and \<open>now2\<close> are the two readings
  of \<open>Date.now()\<close>. \<open>localStorage.setItem\<close> may throw (the quota), which lands in the
  \<open>catch\<close> branch after the state updates. In the \<open>catch\<close> branch \<open>setError\<close> is
  called with \<open>err.message || ...\<close>; when reading \<open>err.message\<close> throws, \<open>setError\<close> is
  not reached and the error is left as it is. \<open>finally\<close> runs in every case.
\<close>

definition handleAnalyze_resolved ::
  "AnalysisHistory list \<Rightarrow> string \<Rightarrow> FoodData \<Rightarrow> int \<Rightarrow> int \<Rightarrow> thrown option \<Rightarrow> state \<Rightarrow> state" where
  "handleAnalyze_resolved hist img result now1 now2 setItem s =
     (let updatedHistory = take 20 (newHistory img result now1 now2 # hist);
          s1 = s\<lparr>foodData := Some result, history := updatedHistory\<rparr>;
          s2 = (case setItem of
                  None \<Rightarrow> s1\<lparr>nutrilens_history := Some updatedHistory\<rparr>
                | Some err \<Rightarrow>
                    s1\<lparr>error :=
                         (case message_or err ''Failed to analyze image. Please try again.'' of
                            None \<Rightarrow> error s1
                          | Some m \<Rightarrow> Some m)\<rparr>)
      in s2\<lparr>isAnalyzing := False\<rparr>)"

text \<open>
  \<open>analyzeFoodImage\<close> rejected with \<open>err\<close>: the \<open>catch\<close> branch, then \<open>finally\<close>. With a
  \<open>null\<close> or \<open>undefined\<close> rejection the \<open>catch\<close> branch throws before \<open>setError\<close>, so
  only \<open>setIsAnalyzing(false)\<close> takes effect.
\<close>

definition handleAnalyze_rejected :: "thrown \<Rightarrow> state \<Rightarrow> state" where
  "handleAnalyze_rejected err s =
     s\<lparr>error :=
         (case message_or err ''Failed to analyze image. Please try again.'' of
            None \<Rightarrow> error s
          | Some m \<Rightarrow> Some m),
       isAnalyzing := False\<rparr>"

text \<open>
  \<open>capturePhoto\<close>. \<open>canvasRef.current\<close> is always mounted; \<open>frame\<close> is \<open>None\<close> when
  \<open>getContext('2d')\<close> returns \<open>null\<close> and otherwise the data URL that \<open>toDataURL\<close> returns.
\<close>

definition capturePhoto :: "string option \<Rightarrow> state \<Rightarrow> state" where
  "capturePhoto frame s =
     (case videoRef s of
        None \<Rightarrow> s
      | Some v \<Rightarrow> (case frame of
            None \<Rightarrow> s
          | Some dataUrl \<Rightarrow>
              handleAnalyze (history s) dataUrl
                (stopCamera (s\<lparr>capturedImage := Some dataUrl\<rparr>))))"

text \<open>
  \<open>handleFileUpload\<close>: with a file chosen, the read is started; \<open>onloadend\<close> runs later
  with the text read (the source takes \<open>reader.result\<close> as a string: the data URL of a
  read that succeeded).
\<close>

definition handleFileUpload :: "bool \<Rightarrow> state \<Rightarrow> state" where
  "handleFileUpload file s =
     (if file then s\<lparr>pending := pending s @ [ReadFile (history s)]\<rparr> else s)"

definition onloadend :: "AnalysisHistory list \<Rightarrow> string \<Rightarrow> state \<Rightarrow> state" where
  "onloadend hist base64String s =
     handleAnalyze hist base64String (s\<lparr>capturedImage := Some base64String, foodData := None\<rparr>)"

text \<open>\<open>handleManualSearch\<close> up to its \<open>await\<close>, then its two continuations.\<close>

definition handleManualSearch :: "state \<Rightarrow> state" where
  "handleManualSearch s =
     (if trim (manualInput s) = [] then s
      else s\<lparr>isAnalyzing := True, error := None, capturedImage := None,
             pending := pending s @ [AnalyzeName (manualInput s)]\<rparr>)"

definition handleManualSearch_resolved :: "FoodData \<Rightarrow> state \<Rightarrow> state" where
  "handleManualSearch_resolved result s = s\<lparr>foodData := Some result, isAnalyzing := False\<rparr>"

definition handleManualSearch_rejected :: "thrown \<Rightarrow> state \<Rightarrow> state" where
  "handleManualSearch_rejected err s =
     s\<lparr>error :=
         (case message_or err ''Search failed.'' of
            None \<Rightarrow> error s
          | Some m \<Rightarrow> Some m),
       isAnalyzing := False\<rparr>"

section \<open>The inline handlers of the JSX (src/App.tsx, lines 141-443)\<close>

definition dismiss :: "state \<Rightarrow> state" where
  "dismiss s = s\<lparr>error := None\<rparr>"

definition retake :: "state \<Rightarrow> state" where
  "retake s = startCamera (s\<lparr>capturedImage := None, foodData := None\<rparr>)"

definition newScan :: "state \<Rightarrow> state" where
  "newScan s = startCamera (s\<lparr>foodData := None, capturedImage := None\<rparr>)"

definition clear :: "state \<Rightarrow> state" where
  "clear s = s\<lparr>foodData := None, capturedImage := None\<rparr>"

definition selectHistory :: "AnalysisHistory \<Rightarrow> state \<Rightarrow> state" where
  "selectHistory item s =
     s\<lparr>foodData := Some (data item), capturedImage := Some (imageUrl item),
       showHistory := False\<rparr>"

section \<open>What is rendered\<close>

text \<open>
  The conditions under which the JSX shows each view: the hero with the search form
  (line 245), the camera view (line 273), the captured image with its Retake button
  (line 301), the spinner (line 315), the results (line 330), the error banner (line 187).
\<close>

definition Idle :: "state \<Rightarrow> bool" where
  "Idle s = (foodData s = None \<and> \<not> isAnalyzing s \<and> \<not> isCameraActive s
             \<and> \<not> truthy (capturedImage s))"

definition CameraActive :: "state \<Rightarrow> bool" where
  "CameraActive s = isCameraActive s"

definition Captured :: "state \<Rightarrow> bool" where
  "Captured s = (truthy (capturedImage s) \<and> foodData s = None \<and> \<not> isAnalyzing s)"

definition Analyzing :: "state \<Rightarrow> bool" where
  "Analyzing s = isAnalyzing s"

definition Result :: "state \<Rightarrow> bool" where
  "Result s = (foodData s \<noteq> None \<and> \<not> isAnalyzing s)"

definition Error :: "state \<Rightarrow> bool" where
  "Error s = truthy (error s)"

text \<open>How many of the four modes are active.\<close>

definition active_modes :: "state \<Rightarrow> nat" where
  "active_modes s =
     length (filter (\<lambda>b. b) [CameraActive s, Captured s, Analyzing s, Result s])"

text \<open>
  The commit of a render: the \<open>video\<close> element carrying \<open>ref={videoRef}\<close> exists exactly
  while \<open>isCameraActive\<close> holds. A newly mounted element has no \<open>srcObject\<close>; on unmount
  React resets \<open>videoRef.current\<close> to \<open>null\<close>.
\<close>

definition render :: "state \<Rightarrow> state" where
  "render s =
     s\<lparr>videoRef :=
         (if isCameraActive s
          then (case videoRef s of None \<Rightarrow> Some \<lparr>srcObject = None\<rparr> | Some v \<Rightarrow> Some v)
          else None)\<rparr>"

section \<open>Events\<close>

text \<open>
  One event is one run of a handler or of a continuation, followed by the commit of the
  render. A completion names the position of its request among those in flight.
\<close>

datatype event =
    ScanFood
  | Retake
  | NewScan
  | Cancel
  | Capture "string option"
  | ChooseFile bool
  | FileLoaded nat string
  | Granted nat nat
  | Denied nat
  | Typed string
  | Submit
  | ImageResolved nat FoodData int int "thrown option"
  | ImageRejected nat thrown
  | NameResolved nat FoodData
  | NameRejected nat thrown
  | Dismiss
  | Clear
  | ToggleHistory
  | CloseHistory
  | Select nat
  | ToggleTheme

definition remove_nth :: "nat \<Rightarrow> 'a list \<Rightarrow> 'a list" where
  "remove_nth i xs = take i xs @ drop (Suc i) xs"

definition complete :: "nat \<Rightarrow> state \<Rightarrow> state" where
  "complete i s = s\<lparr>pending := remove_nth i (pending s)\<rparr>"

definition is_GetUserMedia :: "request \<Rightarrow> bool" where
  "is_GetUserMedia r = (case r of GetUserMedia \<Rightarrow> True | _ \<Rightarrow> False)"

definition is_ReadFile :: "request \<Rightarrow> bool" where
  "is_ReadFile r = (case r of ReadFile h \<Rightarrow> True | _ \<Rightarrow> False)"

definition is_AnalyzeImage :: "request \<Rightarrow> bool" where
  "is_AnalyzeImage r = (case r of AnalyzeImage i h \<Rightarrow> True | _ \<Rightarrow> False)"

definition is_AnalyzeName :: "request \<Rightarrow> bool" where
  "is_AnalyzeName r = (case r of AnalyzeName n \<Rightarrow> True | _ \<Rightarrow> False)"

definition waiting :: "(request \<Rightarrow> bool) \<Rightarrow> nat \<Rightarrow> state \<Rightarrow> bool" where
  "waiting kind i s = (i < length (pending s) \<and> kind (pending s ! i))"

text \<open>
  When the user interface offers an event: the button or form that triggers it is
  rendered (the action bar of line 401 needs \<open>!isCameraActive && !isAnalyzing\<close>), or
  the request it completes is in flight.
\<close>

fun enabled :: "event \<Rightarrow> state \<Rightarrow> bool" where
  "enabled ScanFood s = (\<not> isCameraActive s \<and> \<not> isAnalyzing s)"
| "enabled (ChooseFile f) s = (\<not> isCameraActive s \<and> \<not> isAnalyzing s)"
| "enabled Clear s = (\<not> isCameraActive s \<and> \<not> isAnalyzing s \<and> foodData s \<noteq> None)"
| "enabled Retake s = Captured s"
| "enabled NewScan s = Result s"
| "enabled Cancel s = isCameraActive s"
| "enabled (Capture frame) s = isCameraActive s"
| "enabled (Typed v) s = Idle s"
| "enabled Submit s = Idle s"
| "enabled Dismiss s = Error s"
| "enabled ToggleHistory s = True"
| "enabled ToggleTheme s = True"
| "enabled CloseHistory s = showHistory s"
| "enabled (Select i) s = (showHistory s \<and> i < length (history s))"
| "enabled (FileLoaded i b) s = waiting is_ReadFile i s"
| "enabled (Granted i stream) s = waiting is_GetUserMedia i s"
| "enabled (Denied i) s = waiting is_GetUserMedia i s"
| "enabled (ImageResolved i r n1 n2 q) s = waiting is_AnalyzeImage i s"
| "enabled (ImageRejected i err) s = waiting is_AnalyzeImage i s"
| "enabled (NameResolved i r) s = waiting is_AnalyzeName i s"
| "enabled (NameRejected i err) s = waiting is_AnalyzeName i s"

text \<open>The handler of an event, before the commit.\<close>

fun handler :: "event \<Rightarrow> state \<Rightarrow> state" where
  "handler ScanFood s = startCamera s"
| "handler Retake s = retake s"
| "handler NewScan s = newScan s"
| "handler Cancel s = stopCamera s"
| "handler (Capture frame) s = capturePhoto frame s"
| "handler (ChooseFile f) s = handleFileUpload f s"
| "handler (FileLoaded i b) s =
     (case pending s ! i of
        ReadFile hist \<Rightarrow> onloadend hist b (complete i s)
      | _ \<Rightarrow> s)"
| "handler (Granted i stream) s = startCamera_resolved stream (complete i s)"
| "handler (Denied i) s = startCamera_rejected (complete i s)"
| "handler (Typed v) s = s\<lparr>manualInput := v\<rparr>"
| "handler Submit s = handleManualSearch s"
| "handler (ImageResolved i r n1 n2 q) s =
     (case pending s ! i of
        AnalyzeImage img hist \<Rightarrow> handleAnalyze_resolved hist img r n1 n2 q (complete i s)
      | _ \<Rightarrow> s)"
| "handler (ImageRejected i err) s = handleAnalyze_rejected err (complete i s)"
| "handler (NameResolved i r) s = handleManualSearch_resolved r (complete i s)"
| "handler (NameRejected i err) s = handleManualSearch_rejected err (complete i s)"
| "handler Dismiss s = dismiss s"
| "handler Clear s = clear s"
| "handler ToggleHistory s = s\<lparr>showHistory := \<not> showHistory s\<rparr>"
| "handler CloseHistory s = s\<lparr>showHistory := False\<rparr>"
| "handler (Select i) s = selectHistory (history s ! i) s"
| "handler ToggleTheme s = toggleTheme s"

definition fire :: "event \<Rightarrow> state \<Rightarrow> state" where
  "fire e s = render (handler e s)"

text \<open>A session: the events in order; \<open>None\<close> when one of them is not on offer.\<close>

fun run :: "event list \<Rightarrow> state \<Rightarrow> state option" where
  "run [] s = Some s"
| "run (e # es) s = (if enabled e s then run es (fire e s) else None)"

section \<open>Sessions\<close>

text \<open>
  A successful image-based analysis, as a user carries it out: either a file is chosen,
  read and analysed, or the camera is started, the stream granted, a frame captured and
  analysed. The tuple holds the image, the result, the two readings of \<open>Date.now()\<close> and
  what \<open>localStorage.setItem\<close> throws, if anything.
\<close>

datatype via = ByUpload | ByCamera nat

type_synonym analysis = "string \<times> FoodData \<times> int \<times> int \<times> thrown option"

fun analysis_events :: "via \<Rightarrow> analysis \<Rightarrow> nat \<Rightarrow> event list" where
  "analysis_events ByUpload (img, result, now1, now2, setItem) k =
     [ChooseFile True, FileLoaded k img, ImageResolved k result now1 now2 setItem]"
| "analysis_events (ByCamera stream) (img, result, now1, now2, setItem) k =
     [ScanFood, Granted k stream, Capture (Some img), ImageResolved k result now1 now2 setItem]"

fun entry_of :: "via \<times> analysis \<Rightarrow> AnalysisHistory" where
  "entry_of (v, img, result, now1, now2, setItem) = newHistory img result now1 now2"

text \<open>One analysis after the other, each completed before the next one starts.\<close>

fun analyses :: "(via \<times> analysis) list \<Rightarrow> state \<Rightarrow> state option" where
  "analyses [] s = Some s"
| "analyses ((v, a) # xs) s =
     (case run (analysis_events v a (length (pending s))) s of
        None \<Rightarrow> None
      | Some s' \<Rightarrow> analyses xs s')"

text \<open>
  A session is serial when no history entry is selected and the read of a chosen file
  completes before anything else happens. The flag says that a read is outstanding.
\<close>

fun serial :: "bool \<Rightarrow> event list \<Rightarrow> bool" where
  "serial w [] = True"
| "serial w (e # es) =
     (if w then (case e of FileLoaded i b \<Rightarrow> serial False es | _ \<Rightarrow> False)
      else (case e of
              Select i \<Rightarrow> False
            | FileLoaded i b \<Rightarrow> False
            | ChooseFile f \<Rightarrow> serial f es
            | _ \<Rightarrow> serial False es))"

text \<open>
  The analysis requests in flight, and the invariant of serial sessions: at most one
  analysis is in flight, and then the spinner shows; while the spinner shows no record
  is displayed; while the camera view is mounted nothing is analysed, displayed or
  captured; and a file is only being read while neither the camera nor an analysis is
  active.
\<close>

definition is_analysis :: "request \<Rightarrow> bool" where
  "is_analysis r = (is_AnalyzeImage r \<or> is_AnalyzeName r)"

definition in_flight :: "state \<Rightarrow> nat" where
  "in_flight s = length (filter is_analysis (pending s))"

definition serial_inv :: "bool \<Rightarrow> state \<Rightarrow> bool" where
  "serial_inv w s =
     (in_flight s \<le> 1 \<and> (in_flight s = 1 \<longrightarrow> isAnalyzing s)
      \<and> (isAnalyzing s \<longrightarrow> foodData s = None)
      \<and> (isCameraActive s \<longrightarrow> \<not> isAnalyzing s \<and> foodData s = None \<and> capturedImage s = None)
      \<and> (w \<longrightarrow> \<not> isCameraActive s \<and> \<not> isAnalyzing s))"

text \<open>Whether a file read is outstanding after an event of a serial session.\<close>

definition reading_after :: "event \<Rightarrow> bool" where
  "reading_after e = (case e of ChooseFile f \<Rightarrow> f | _ \<Rightarrow> False)"

text \<open>
  A second invariant of serial sessions: the image of an analysis in flight is the
  captured image.
\<close>

definition image_ok :: "string option \<Rightarrow> request \<Rightarrow> bool" where
  "image_ok c r = (case r of AnalyzeImage img h \<Rightarrow> c = Some img | _ \<Rightarrow> True)"

definition image_inv :: "state \<Rightarrow> bool" where
  "image_inv s = list_all (image_ok (capturedImage s)) (pending s)"

section \<open>\<open>JSON.parse\<close>\<close>

text \<open>
  The grammar of ECMA-404 on texts of 8-bit characters. A parsed value keeps the lexeme
  of a number and the characters of a string as they are written (escapes undecoded),
  and the members of an object in the order of the text.
\<close>

datatype json =
    JNull
  | JBool bool
  | JNumber string
  | JString string
  | JArray "json list"
  | JObject "(string \<times> json) list"

datatype token =
    LBrace | RBrace | LBracket | RBracket | Colon | Comma
  | TString string
  | TNumber string
  | TWord string

datatype lex_mode =
    Top
  | InString string
  | InEscape string
  | InHex nat string
  | InNumber string
  | InWord string

datatype lex_action = Skip | Emit token | Enter lex_mode | Bad

definition code :: "char \<Rightarrow> nat" where
  "code c = of_char c"

definition isDigit :: "char \<Rightarrow> bool" where
  "isDigit c = (48 \<le> code c \<and> code c \<le> 57)"

definition isHexDigit :: "char \<Rightarrow> bool" where
  "isHexDigit c = (isDigit c \<or> (65 \<le> code c \<and> code c \<le> 70) \<or> (97 \<le> code c \<and> code c \<le> 102))"

definition isLetter :: "char \<Rightarrow> bool" where
  "isLetter c = ((65 \<le> code c \<and> code c \<le> 90) \<or> (97 \<le> code c \<and> code c \<le> 122))"

definition isNumberChar :: "char \<Rightarrow> bool" where
  "isNumberChar c = (isDigit c \<or> c \<in> set ''.eE+-'')"

text \<open>A character met between tokens.\<close>

definition top_char :: "char \<Rightarrow> lex_action" where
  "top_char c =
     (if code c \<in> {9, 10, 13, 32} then Skip
      else if c = CHR ''{'' then Emit LBrace
      else if c = CHR ''}'' then Emit RBrace
      else if c = CHR ''['' then Emit LBracket
      else if c = CHR '']'' then Emit RBracket
      else if c = CHR '':'' then Emit Colon
      else if c = CHR '','' then Emit Comma
      else if code c = 34 then Enter (InString [])
      else if isDigit c \<or> c = CHR ''-'' then Enter (InNumber [c])
      else if isLetter c then Enter (InWord [c])
      else Bad)"

text \<open>
  The lexer reads one character at a time; the tokens and the characters of the current
  token are collected in reverse. Character 34 is the double quote, 92 the backslash.
\<close>

fun lex :: "lex_mode \<Rightarrow> token list \<Rightarrow> string \<Rightarrow> token list option" where
  "lex m out [] =
     (case m of
        Top \<Rightarrow> Some (rev out)
      | InNumber a \<Rightarrow> Some (rev (TNumber (rev a) # out))
      | InWord a \<Rightarrow> Some (rev (TWord (rev a) # out))
      | _ \<Rightarrow> None)"
| "lex m out (c # cs) =
     (case m of
        Top \<Rightarrow>
          (case top_char c of
             Skip \<Rightarrow> lex Top out cs
           | Emit t \<Rightarrow> lex Top (t # out) cs
           | Enter m' \<Rightarrow> lex m' out cs
           | Bad \<Rightarrow> None)
      | InString a \<Rightarrow>
          (if code c = 34 then lex Top (TString (rev a) # out) cs
           else if code c = 92 then lex (InEscape (c # a)) out cs
           else if code c < 32 then None
           else lex (InString (c # a)) out cs)
      | InEscape a \<Rightarrow>
          (if code c \<in> {34, 92} \<or> c \<in> set ''/bfnrt'' then lex (InString (c # a)) out cs
           else if c = CHR ''u'' then lex (InHex 4 (c # a)) out cs
           else None)
      | InHex n a \<Rightarrow>
          (if \<not> isHexDigit c then None
           else if n \<le> 1 then lex (InString (c # a)) out cs
           else lex (InHex (n - 1) (c # a)) out cs)
      | InNumber a \<Rightarrow>
          (if isNumberChar c then lex (InNumber (c # a)) out cs
           else (case top_char c of
                   Skip \<Rightarrow> lex Top (TNumber (rev a) # out) cs
                 | Emit t \<Rightarrow> lex Top (t # TNumber (rev a) # out) cs
                 | Enter m' \<Rightarrow> lex m' (TNumber (rev a) # out) cs
                 | Bad \<Rightarrow> None))
      | InWord a \<Rightarrow>
          (if isLetter c then lex (InWord (c # a)) out cs
           else (case top_char c of
                   Skip \<Rightarrow> lex Top (TWord (rev a) # out) cs
                 | Emit t \<Rightarrow> lex Top (t # TWord (rev a) # out) cs
                 | Enter m' \<Rightarrow> lex m' (TWord (rev a) # out) cs
                 | Bad \<Rightarrow> None)))"

text \<open>
  The lexeme of a number: an optional minus, \<open>0\<close> or a digit from 1 to 9 followed by
  digits, an optional fraction, an optional exponent.
\<close>

definition valid_exponent :: "string \<Rightarrow> bool" where
  "valid_exponent r =
     (case r of
        [] \<Rightarrow> True
      | e # r1 \<Rightarrow>
          (e = CHR ''e'' \<or> e = CHR ''E'') \<and>
          (let r2 = (case r1 of [] \<Rightarrow> [] | x # r3 \<Rightarrow> if x = CHR ''+'' \<or> x = CHR ''-'' then r3 else r1)
           in r2 \<noteq> [] \<and> list_all isDigit r2))"

definition valid_fraction :: "string \<Rightarrow> bool" where
  "valid_fraction r =
     (case r of
        [] \<Rightarrow> True
      | p # r1 \<Rightarrow>
          if p = CHR ''.'' then
            (case r1 of [] \<Rightarrow> False
             | d # r2 \<Rightarrow> isDigit d \<and> valid_exponent (dropWhile isDigit r2))
          else valid_exponent r)"

definition valid_number :: "string \<Rightarrow> bool" where
  "valid_number s =
     (let s1 = (case s of [] \<Rightarrow> [] | m # r \<Rightarrow> if m = CHR ''-'' then r else s)
      in case s1 of
           [] \<Rightarrow> False
         | d # r \<Rightarrow>
             if d = CHR ''0'' then valid_fraction r
             else isDigit d \<and> valid_fraction (dropWhile isDigit r))"

text \<open>
  The parser runs over the tokens with a stack of the containers that are open: an
  array with its elements so far, an object with its members so far, and an object
  whose member with the given key waits for its value (all in reverse).
\<close>

datatype frame =
    InArray "json list"
  | InObject "(string \<times> json) list"
  | InMember "(string \<times> json) list" string

datatype expect =
    Value
  | ValueOrEnd
  | KeyOrEnd
  | Key
  | ColonAfter string
  | CommaOrEnd
  | Finished json

fun scalar :: "token \<Rightarrow> json option" where
  "scalar (TString s) = Some (JString s)"
| "scalar (TNumber n) = (if valid_number n then Some (JNumber n) else None)"
| "scalar (TWord w) =
     (if w = ''true'' then Some (JBool True)
      else if w = ''false'' then Some (JBool False)
      else if w = ''null'' then Some JNull
      else None)"
| "scalar t = None"

text \<open>A value is complete: it goes into the innermost open container.\<close>

fun put :: "json \<Rightarrow> frame list \<Rightarrow> (expect \<times> frame list) option" where
  "put v [] = Some (Finished v, [])"
| "put v (InArray es # st) = Some (CommaOrEnd, InArray (v # es) # st)"
| "put v (InMember ms k # st) = Some (CommaOrEnd, InObject ((k, v) # ms) # st)"
| "put v (InObject ms # st) = None"

definition begin_value :: "token \<Rightarrow> frame list \<Rightarrow> (expect \<times> frame list) option" where
  "begin_value t st =
     (case t of
        LBracket \<Rightarrow> Some (ValueOrEnd, InArray [] # st)
      | LBrace \<Rightarrow> Some (KeyOrEnd, InObject [] # st)
      | _ \<Rightarrow> (case scalar t of None \<Rightarrow> None | Some v \<Rightarrow> put v st))"

definition end_array :: "frame list \<Rightarrow> (expect \<times> frame list) option" where
  "end_array st = (case st of InArray es # st' \<Rightarrow> put (JArray (rev es)) st' | _ \<Rightarrow> None)"

definition end_object :: "frame list \<Rightarrow> (expect \<times> frame list) option" where
  "end_object st = (case st of InObject ms # st' \<Rightarrow> put (JObject (rev ms)) st' | _ \<Rightarrow> None)"

fun step_token :: "token \<Rightarrow> expect \<Rightarrow> frame list \<Rightarrow> (expect \<times> frame list) option" where
  "step_token t Value st = begin_value t st"
| "step_token t ValueOrEnd st = (if t = RBracket then end_array st else begin_value t st)"
| "step_token t KeyOrEnd st =
     (case t of RBrace \<Rightarrow> end_object st | TString k \<Rightarrow> Some (ColonAfter k, st) | _ \<Rightarrow> None)"
| "step_token t Key st = (case t of TString k \<Rightarrow> Some (ColonAfter k, st) | _ \<Rightarrow> None)"
| "step_token t (ColonAfter k) st =
     (if t = Colon
      then (case st of InObject ms # st' \<Rightarrow> Some (Value, InMember ms k # st') | _ \<Rightarrow> None)
      else None)"
| "step_token t CommaOrEnd st =
     (case t of
        Comma \<Rightarrow> (case st of
                    InArray es # st' \<Rightarrow> Some (Value, st)
                  | InObject ms # st' \<Rightarrow> Some (Key, st)
                  | _ \<Rightarrow> None)
      | RBracket \<Rightarrow> end_array st
      | RBrace \<Rightarrow> end_object st
      | _ \<Rightarrow> None)"
| "step_token t (Finished v) st = None"

fun parse_tokens :: "expect \<Rightarrow> frame list \<Rightarrow> token list \<Rightarrow> json option" where
  "parse_tokens x st [] = (case x of Finished v \<Rightarrow> Some v | _ \<Rightarrow> None)"
| "parse_tokens x st (t # ts) =
     (case step_token t x st of
        None \<Rightarrow> None
      | Some (x', st') \<Rightarrow> parse_tokens x' st' ts)"

datatype exception = SyntaxError

definition JSON_parse :: "string \<Rightarrow> exception + json" where
  "JSON_parse text =
     (case lex Top [] text of
        None \<Rightarrow> Inl SyntaxError
      | Some ts \<Rightarrow> (case parse_tokens Value [] ts of
            None \<Rightarrow> Inl SyntaxError
          | Some v \<Rightarrow> Inr v))"

section \<open>The mount effect (src/App.tsx, lines 23-32)\<close>

text \<open>
  The arguments are what \<open>localStorage.getItem\<close> returns for the two keys. The effect
  has no \<open>try\<close>: what \<open>JSON.parse\<close> throws leaves the effect, and the theme is not
  read then. Otherwise the result is the argument of \<open>setHistory\<close> (\<open>None\<close> when it is
  not called and the history stays the initial \<open>[]\<close>) and whether dark mode is set.
\<close>

definition persistence_effect :: "string option \<Rightarrow> string option \<Rightarrow> exception + (json option \<times> bool)" where
  "persistence_effect savedHistory savedTheme =
     (case (if truthy savedHistory
            then (case JSON_parse (the savedHistory) of Inl e \<Rightarrow> Inl e | Inr v \<Rightarrow> Inr (Some v))
            else Inr None) of
        Inl e \<Rightarrow> Inl e
      | Inr h \<Rightarrow> Inr (h, savedTheme = Some ''dark''))"

text \<open>The history after the effect.\<close>

definition loaded_history :: "json option \<Rightarrow> json" where
  "loaded_history h = (case h of None \<Rightarrow> JArray [] | Some v \<Rightarrow> v)"

section \<open>Sample data\<close>

definition sample_food :: FoodData where
  "sample_food =
     \<lparr>food_name = ''Paneer Tikka'', confidence = ''High'',
      nutrition = \<lparr>calories = 250, protein = 12, carbs = 8, fat = 18,
                   fiber = Some 2, sugar = None, vitamins = Some [''A'']\<rparr>,
      ingredients = [''paneer'', ''yogurt''],
      recipe = [\<lparr>step = 1, instruction = ''Marinate''\<rparr>, \<lparr>step = 2, instruction = ''Grill''\<rparr>],
      allergens = [''milk''], serving_size = ''1 plate'', cuisine = ''Indian'',
      classification = ''Veg'', tips = None\<rparr>"

definition camera_on :: state where
  "camera_on = fire (Granted 0 1) (fire ScanFood initial)"

definition captures21 :: "(via \<times> analysis) list" where
  "captures21 =
     map (\<lambda>k. (ByUpload, (''data:image/jpeg;base64,AAAA'', sample_food, k, k, None))) [1..21]"

text \<open>The history after a run of analyses from the initial state.\<close>

definition history_after :: "(via \<times> analysis) list \<Rightarrow> AnalysisHistory list" where
  "history_after xs = (case analyses xs initial of None \<Rightarrow> [] | Some s \<Rightarrow> history s)"

text \<open>An upload whose analysis fails, and the banner dismissed.\<close>

definition upload_trace :: "event list" where
  "upload_trace =
     [ChooseFile True, FileLoaded 0 ''data:image/jpeg;base64,AAAA'',
      ImageRejected 0 (Thrown (Some ''Network error'')), Dismiss]"

text \<open>
  One analysis succeeds and fills the history; the camera is started and its stream
  granted; the history panel is opened and the entry selected.
\<close>

definition select_trace :: "event list" where
  "select_trace =
     [ChooseFile True, FileLoaded 0 ''data:image/jpeg;base64,AAAA'',
      ImageResolved 0 sample_food 1700000000000 1700000000000 None,
      ScanFood, Granted 0 1, ToggleHistory, Select 0]"

text \<open>... then a frame is captured and its analysis fails.\<close>

definition select_capture_trace :: "event list" where
  "select_capture_trace =
     select_trace @ [Capture (Some ''data:image/jpeg;base64,BBBB''),
                     ImageRejected 0 (Thrown (Some ''Network error''))]"

text \<open>... or New Scan is pressed in the results and a second stream is granted.\<close>

definition second_start_trace :: "event list" where
  "second_start_trace = select_trace @ [NewScan, Granted 0 2]"

text \<open>A file is chosen, and the camera is started before the file has been read.\<close>

definition race_trace :: "event list" where
  "race_trace =
     [ChooseFile True, ScanFood, Granted 1 1, FileLoaded 0 ''data:image/jpeg;base64,AAAA'']"

text \<open>A frame is captured; its analysis is in flight.\<close>

definition capture_trace :: "event list" where
  "capture_trace = [ScanFood, Granted 0 1, Capture (Some ''data:image/jpeg;base64,AAAA'')]"

text \<open>The camera is started and its stream granted.\<close>

definition camera_trace :: "event list" where
  "camera_trace = [ScanFood, Granted 0 1]"

text \<open>A result is displayed, and another file is uploaded.\<close>

definition reupload_trace :: "event list" where
  "reupload_trace =
     [ChooseFile True, FileLoaded 0 ''data:image/jpeg;base64,AAAA'',
      ImageResolved 0 sample_food 1700000000000 1700000000000 None,
      ChooseFile True, FileLoaded 0 ''data:image/jpeg;base64,BBBB'']"

text \<open>A serial session that passes through every mode.\<close>

definition serial_trace :: "event list" where
  "serial_trace =
     [ScanFood, Granted 0 1, Capture (Some ''data:image/jpeg;base64,AAAA''),
      ImageRejected 0 (Thrown None), Dismiss, Retake, Cancel, ChooseFile True,
      FileLoaded 1 ''data:image/jpeg;base64,BBBB'']"

section \<open>Basic facts\<close>

lemmas handler_defs =
  startCamera_def startCamera_resolved_def startCamera_rejected_def stopCamera_def
  handleAnalyze_def handleAnalyze_resolved_def handleAnalyze_rejected_def capturePhoto_def
  handleFileUpload_def onloadend_def handleManualSearch_def handleManualSearch_resolved_def
  handleManualSearch_rejected_def dismiss_def retake_def newScan_def clear_def
  selectHistory_def toggleTheme_def complete_def

lemmas mode_defs = Idle_def CameraActive_def Captured_def Analyzing_def Result_def Error_def

lemmas kind_defs = is_GetUserMedia_def is_ReadFile_def is_AnalyzeImage_def is_AnalyzeName_def
  is_analysis_def

lemma trim_blank: "list_all isWhiteSpace xs \<Longrightarrow> trim xs = []"
  by (auto simp: trim_def list_all_iff dropWhile_eq_Nil_conv dest: set_dropWhileD)

lemma message_or_nonempty:
  "err \<noteq> Nullish \<Longrightarrow> fallback \<noteq> [] \<Longrightarrow> \<exists>m. message_or err fallback = Some m \<and> m \<noteq> []"
  by (cases err) (auto simp: message_or_def truthy_def split: option.splits)

lemma rejected_Nullish:
  "handleAnalyze_rejected Nullish s = s\<lparr>isAnalyzing := False\<rparr>"
  "handleManualSearch_rejected Nullish s = s\<lparr>isAnalyzing := False\<rparr>"
  by (simp_all add: handleAnalyze_rejected_def handleManualSearch_rejected_def message_or_def)

lemma take_append_take: "take n (xs @ take n ys) = take n (xs @ ys)"
  by (simp add: min_def)

lemma camera_on_eq:
  "camera_on = initial\<lparr>isCameraActive := True, videoRef := Some \<lparr>srcObject = Some 1\<rparr>,
     liveStreams := [1]\<rparr>"
  by (simp add: camera_on_def fire_def render_def handler_defs remove_nth_def initial_def)

section \<open>The history of a run of analyses\<close>

lemma one_analysis:
  assumes "\<not> isCameraActive s" and "\<not> isAnalyzing s"
  shows "\<exists>s'. run (analysis_events v a (length (pending s))) s = Some s'
           \<and> \<not> isCameraActive s' \<and> \<not> isAnalyzing s'
           \<and> history s' = take 20 (entry_of (v, a) # history s)"
proof -
  obtain img result now1 now2 setItem where a: "a = (img, result, now1, now2, setItem)"
    by (cases a) auto
  show ?thesis
  proof (cases v)
    case ByUpload
    with assms a show ?thesis
      by (simp add: fire_def render_def handler_defs waiting_def is_ReadFile_def
          is_AnalyzeImage_def remove_nth_def Let_def split: option.splits)
  next
    case (ByCamera stream)
    with assms a show ?thesis
      by (simp add: fire_def render_def handler_defs waiting_def is_GetUserMedia_def
          is_AnalyzeImage_def remove_nth_def Let_def split: option.splits)
  qed
qed

lemma analyses_history:
  "\<not> isCameraActive s \<Longrightarrow> \<not> isAnalyzing s \<Longrightarrow> length (history s) \<le> 20 \<Longrightarrow>
   \<exists>s'. analyses xs s = Some s' \<and> history s' = take 20 (rev (map entry_of xs) @ history s)"
proof (induction xs arbitrary: s)
  case Nil
  then show ?case by simp
next
  case (Cons x xs)
  obtain v a where x: "x = (v, a)" by (cases x)
  from one_analysis [OF Cons.prems(1,2), of v a] obtain s1 where
    s1: "run (analysis_events v a (length (pending s))) s = Some s1"
      "\<not> isCameraActive s1" "\<not> isAnalyzing s1"
      "history s1 = take 20 (entry_of (v, a) # history s)"
    by blast
  from s1(4) have "length (history s1) \<le> 20" by simp
  from Cons.IH [OF s1(2,3) this] obtain s' where
    s': "analyses xs s1 = Some s'" "history s' = take 20 (rev (map entry_of xs) @ history s1)"
    by blast
  have "history s' = take 20 (rev (map entry_of (x # xs)) @ history s)"
    unfolding s'(2) s1(4) x by (simp only: take_append_take) simp
  with s'(1) s1(1) x show ?case by simp
qed

lemma history_after_eq:
  "analyses xs initial \<noteq> None \<and> history_after xs = take 20 (rev (map entry_of xs))"
  using analyses_history [of initial xs]
  by (auto simp: history_after_def initial_def)

section \<open>The invariant of serial sessions\<close>

lemma filter_remove_nth:
  assumes "i < length xs"
  shows "length (filter P (remove_nth i xs)) = length (filter P xs) - (if P (xs ! i) then 1 else 0)"
proof -
  have "xs = take i xs @ xs ! i # drop (Suc i) xs"
    using assms by (rule id_take_nth_drop)
  then have "filter P xs = filter P (take i xs) @ filter P [xs ! i] @ filter P (drop (Suc i) xs)"
    by (metis append_Cons append_Nil filter_append)
  then show ?thesis
    by (simp add: remove_nth_def)
qed

lemma in_flight_complete:
  "i < length (pending s) \<Longrightarrow>
   in_flight (complete i s) = in_flight s - (if is_analysis (pending s ! i) then 1 else 0)"
  by (simp add: in_flight_def complete_def filter_remove_nth)

lemma no_analysis_in_flight:
  assumes "serial_inv w s" and "\<not> isAnalyzing s"
  shows "filter is_analysis (pending s) = []"
proof -
  from assms have "in_flight s \<le> 1" and "in_flight s \<noteq> 1" by (auto simp: serial_inv_def)
  then have "in_flight s = 0" by arith
  then show ?thesis by (simp add: in_flight_def)
qed

lemma serial_inv_ScanFood:
  "serial_inv False s \<Longrightarrow> enabled ScanFood s \<Longrightarrow> serial_inv False (fire ScanFood s)"
  by (simp add: fire_def render_def serial_inv_def in_flight_def startCamera_def kind_defs)

lemma serial_inv_Retake:
  "serial_inv False s \<Longrightarrow> enabled Retake s \<Longrightarrow> serial_inv False (fire Retake s)"
  by (simp add: fire_def render_def serial_inv_def in_flight_def startCamera_def retake_def
      Captured_def kind_defs)

lemma serial_inv_NewScan:
  "serial_inv False s \<Longrightarrow> enabled NewScan s \<Longrightarrow> serial_inv False (fire NewScan s)"
  by (simp add: fire_def render_def serial_inv_def in_flight_def startCamera_def newScan_def
      Result_def kind_defs)

lemma serial_inv_Cancel: "serial_inv False s \<Longrightarrow> serial_inv False (fire Cancel s)"
  by (simp add: fire_def render_def serial_inv_def in_flight_def stopCamera_def)

lemma serial_inv_simple:
  "serial_inv False s \<Longrightarrow> serial_inv False (fire Dismiss s)"
  "serial_inv False s \<Longrightarrow> serial_inv False (fire ToggleHistory s)"
  "serial_inv False s \<Longrightarrow> serial_inv False (fire CloseHistory s)"
  "serial_inv False s \<Longrightarrow> serial_inv False (fire ToggleTheme s)"
  "serial_inv False s \<Longrightarrow> serial_inv False (fire (Typed v) s)"
  "serial_inv False s \<Longrightarrow> serial_inv False (fire Clear s)"
  by (simp_all add: fire_def render_def serial_inv_def in_flight_def dismiss_def
      toggleTheme_def clear_def)

lemma serial_inv_ChooseFile:
  "serial_inv False s \<Longrightarrow> enabled (ChooseFile f) s \<Longrightarrow> serial_inv f (fire (ChooseFile f) s)"
  by (simp add: fire_def render_def serial_inv_def in_flight_def handleFileUpload_def kind_defs)

lemma serial_inv_Submit:
  assumes "serial_inv False s" and "enabled Submit s"
  shows "serial_inv False (fire Submit s)"
proof -
  from assms(2) have n: "\<not> isAnalyzing s" "\<not> isCameraActive s" "foodData s = None"
    by (simp_all add: Idle_def)
  from no_analysis_in_flight [OF assms(1) n(1)] n assms(1) show ?thesis
    by (simp add: fire_def render_def serial_inv_def in_flight_def handleManualSearch_def
        kind_defs)
qed

lemma serial_inv_Capture:
  assumes "serial_inv False s" and "enabled (Capture frame) s"
  shows "serial_inv False (fire (Capture frame) s)"
proof -
  from assms have n: "\<not> isAnalyzing s" "isCameraActive s" by (simp_all add: serial_inv_def)
  from no_analysis_in_flight [OF assms(1) n(1)] n assms(1) show ?thesis
    by (simp add: fire_def render_def serial_inv_def in_flight_def capturePhoto_def
        stopCamera_def handleAnalyze_def kind_defs split: option.splits)
qed

lemma serial_inv_FileLoaded:
  assumes "serial_inv True s" and "enabled (FileLoaded i b) s"
  shows "serial_inv False (fire (FileLoaded i b) s)"
proof -
  from assms(1) have n: "\<not> isAnalyzing s" "\<not> isCameraActive s"
    by (simp_all add: serial_inv_def)
  from assms(2) obtain hist where r: "pending s ! i = ReadFile hist"
    and i: "i < length (pending s)"
    by (auto simp: waiting_def is_ReadFile_def split: request.splits)
  have "in_flight (complete i s) = 0"
    using in_flight_complete [OF i] no_analysis_in_flight [OF assms(1) n(1)]
    by (simp add: in_flight_def)
  then have "filter is_analysis (pending (complete i s)) = []"
    by (simp add: in_flight_def)
  with n r show ?thesis
    by (simp add: fire_def render_def serial_inv_def in_flight_def onloadend_def
        handleAnalyze_def kind_defs complete_def)
qed

lemma serial_inv_camera_done:
  assumes "serial_inv False s" and "waiting is_GetUserMedia i s"
  shows "serial_inv False (fire (Granted i stream) s)" and "serial_inv False (fire (Denied i) s)"
proof -
  from assms(2) have i: "i < length (pending s)" and k: "\<not> is_analysis (pending s ! i)"
    by (auto simp: waiting_def kind_defs split: request.splits)
  from in_flight_complete [OF i] k have f: "in_flight (complete i s) = in_flight s" by simp
  have c: "isAnalyzing (complete i s) = isAnalyzing s"
    "isCameraActive (complete i s) = isCameraActive s"
    "foodData (complete i s) = foodData s" "capturedImage (complete i s) = capturedImage s"
    by (simp_all add: complete_def)
  from assms(1) f c have "serial_inv False (complete i s)"
    by (simp add: serial_inv_def)
  then show "serial_inv False (fire (Granted i stream) s)"
    and "serial_inv False (fire (Denied i) s)"
    by (simp_all add: fire_def render_def serial_inv_def in_flight_def
        startCamera_resolved_def startCamera_rejected_def)
qed

lemma serial_inv_analysis_done:
  assumes "serial_inv False s" and "i < length (pending s)" and "is_analysis (pending s ! i)"
  shows "in_flight (complete i s) = 0" and "\<not> isCameraActive s"
proof -
  from assms(2,3) have "\<exists>r \<in> set (pending s). is_analysis r" using nth_mem by blast
  then have "in_flight s \<noteq> 0" by (simp add: in_flight_def filter_empty_conv)
  with assms(1) have one: "in_flight s = 1" and "isAnalyzing s" by (auto simp: serial_inv_def)
  with assms(1) show "\<not> isCameraActive s" by (auto simp: serial_inv_def)
  from in_flight_complete [OF assms(2)] assms(3) one show "in_flight (complete i s) = 0"
    by simp
qed

lemma serial_inv_image_done:
  assumes "serial_inv False s" and "waiting is_AnalyzeImage i s"
  shows "serial_inv False (fire (ImageResolved i r n1 n2 q) s)"
    and "serial_inv False (fire (ImageRejected i err) s)"
proof -
  from assms(2) obtain img hist where r: "pending s ! i = AnalyzeImage img hist"
    and i: "i < length (pending s)"
    by (auto simp: waiting_def is_AnalyzeImage_def split: request.splits)
  from r have "is_analysis (pending s ! i)" by (simp add: kind_defs)
  from serial_inv_analysis_done [OF assms(1) i this]
  have z: "in_flight (complete i s) = 0" and c: "\<not> isCameraActive s" .
  have c': "isCameraActive (complete i s) = isCameraActive s" by (simp add: complete_def)
  from z c c' r show "serial_inv False (fire (ImageResolved i r n1 n2 q) s)"
    by (simp add: fire_def render_def serial_inv_def in_flight_def handleAnalyze_resolved_def
        Let_def split: option.splits)
  from z c c' show "serial_inv False (fire (ImageRejected i err) s)"
    by (simp add: fire_def render_def serial_inv_def in_flight_def handleAnalyze_rejected_def)
qed

lemma serial_inv_name_done:
  assumes "serial_inv False s" and "waiting is_AnalyzeName i s"
  shows "serial_inv False (fire (NameResolved i r) s)"
    and "serial_inv False (fire (NameRejected i err) s)"
proof -
  from assms(2) have i: "i < length (pending s)" and "is_analysis (pending s ! i)"
    by (auto simp: waiting_def kind_defs)
  from serial_inv_analysis_done [OF assms(1) this]
  have z: "in_flight (complete i s) = 0" and c: "\<not> isCameraActive s" .
  have c': "isCameraActive (complete i s) = isCameraActive s" by (simp add: complete_def)
  from z c c' show "serial_inv False (fire (NameResolved i r) s)"
    by (simp add: fire_def render_def serial_inv_def in_flight_def
        handleManualSearch_resolved_def)
  from z c c' show "serial_inv False (fire (NameRejected i err) s)"
    by (simp add: fire_def render_def serial_inv_def in_flight_def
        handleManualSearch_rejected_def)
qed

lemma serial_inv_fire:
  assumes "serial_inv w s" and "serial w (e # es)" and "enabled e s"
  shows "serial_inv (reading_after e) (fire e s) \<and> serial (reading_after e) es"
proof (cases w)
  case True
  with assms(2) obtain i b where e: "e = FileLoaded i b" and "serial False es"
    by (cases e) simp_all
  with True assms serial_inv_FileLoaded show ?thesis
    by (simp add: reading_after_def)
next
  case False
  with assms have inv: "serial_inv False s" by simp
  from False assms(2) show ?thesis
  proof (cases e)
    case ScanFood
    with inv assms False show ?thesis by (simp add: reading_after_def serial_inv_ScanFood)
  next
    case Retake
    with inv assms False show ?thesis by (simp add: reading_after_def serial_inv_Retake)
  next
    case NewScan
    with inv assms False show ?thesis by (simp add: reading_after_def serial_inv_NewScan)
  next
    case Cancel
    with inv assms False show ?thesis by (simp add: reading_after_def serial_inv_Cancel)
  next
    case (Capture f)
    with inv assms False show ?thesis by (simp add: reading_after_def serial_inv_Capture)
  next
    case (ChooseFile f)
    with inv assms False show ?thesis by (simp add: reading_after_def serial_inv_ChooseFile)
  next
    case (FileLoaded i b)
    with assms False show ?thesis by simp
  next
    case (Granted i stream)
    with inv assms False show ?thesis by (simp add: reading_after_def serial_inv_camera_done)
  next
    case (Denied i)
    with inv assms False show ?thesis by (simp add: reading_after_def serial_inv_camera_done)
  next
    case (Typed v)
    with inv assms False show ?thesis by (simp add: reading_after_def serial_inv_simple)
  next
    case Submit
    with inv assms False show ?thesis by (simp add: reading_after_def serial_inv_Submit)
  next
    case (ImageResolved i r n1 n2 q)
    with inv assms False show ?thesis by (simp add: reading_after_def serial_inv_image_done)
  next
    case (ImageRejected i err)
    with inv assms False show ?thesis by (simp add: reading_after_def serial_inv_image_done)
  next
    case (NameResolved i r)
    with inv assms False show ?thesis by (simp add: reading_after_def serial_inv_name_done)
  next
    case (NameRejected i err)
    with inv assms False show ?thesis by (simp add: reading_after_def serial_inv_name_done)
  next
    case Dismiss
    with inv assms False show ?thesis by (simp add: reading_after_def serial_inv_simple)
  next
    case Clear
    with inv assms False show ?thesis by (simp add: reading_after_def serial_inv_simple)
  next
    case ToggleHistory
    with inv assms False show ?thesis by (simp add: reading_after_def serial_inv_simple)
  next
    case CloseHistory
    with inv assms False show ?thesis by (simp add: reading_after_def serial_inv_simple)
  next
    case (Select i)
    with assms False show ?thesis by simp
  next
    case ToggleTheme
    with inv assms False show ?thesis by (simp add: reading_after_def serial_inv_simple)
  qed
qed

lemma serial_inv_run:
  "serial_inv w s \<Longrightarrow> serial w es \<Longrightarrow> run es s = Some s' \<Longrightarrow> \<exists>w'. serial_inv w' s'"
proof (induction es arbitrary: w s)
  case Nil
  then show ?case by auto
next
  case (Cons e es)
  from Cons.prems(3) have en: "enabled e s" and r: "run es (fire e s) = Some s'"
    by (auto split: if_splits)
  from serial_inv_fire [OF Cons.prems(1,2) en] Cons.IH r show ?case by blast
qed

lemma serial_inv_modes: "serial_inv w s \<Longrightarrow> active_modes s \<le> 1"
  by (auto simp: serial_inv_def active_modes_def mode_defs truthy_def)

lemma serial_inv_initial: "serial_inv False initial"
  by (simp add: serial_inv_def initial_def in_flight_def)

lemma serial_reach:
  "serial False es \<Longrightarrow> run es initial = Some s \<Longrightarrow> \<exists>w. serial_inv w s"
  using serial_inv_run [OF serial_inv_initial] by blast

lemma serial_inv_in_flight:
  assumes "serial_inv w s" and "i < length (pending s)" and "is_analysis (pending s ! i)"
  shows "foodData s = None"
proof -
  from assms(2,3) have "\<exists>r \<in> set (pending s). is_analysis r" using nth_mem by blast
  then have "in_flight s \<noteq> 0" by (simp add: in_flight_def filter_empty_conv)
  with assms(1) have "isAnalyzing s" by (auto simp: serial_inv_def)
  with assms(1) show ?thesis by (simp add: serial_inv_def)
qed

lemma serial_inv_no_start:
  "serial_inv w s \<Longrightarrow> isCameraActive s \<Longrightarrow>
   \<not> enabled ScanFood s \<and> \<not> enabled Retake s \<and> \<not> enabled NewScan s"
  by (simp add: serial_inv_def Captured_def Result_def truthy_def)

lemma camera_trace_run: "run camera_trace initial = Some camera_on"
  by (simp add: camera_trace_def camera_on_def initial_def fire_def render_def handler_defs
      waiting_def is_GetUserMedia_def)

section \<open>The image of the analysis in flight\<close>

lemma quiet_image_ok: "filter is_analysis p = [] \<Longrightarrow> list_all (image_ok c) p"
  by (auto simp: list_all_iff filter_empty_conv image_ok_def kind_defs split: request.splits)

lemma remove_nth_all: "list_all P xs \<Longrightarrow> list_all P (remove_nth i xs)"
  by (auto simp: list_all_iff remove_nth_def dest: in_set_takeD in_set_dropD)

lemma image_inv_initial: "image_inv initial"
  by (simp add: image_inv_def initial_def)

lemma image_inv_complete: "image_inv s \<Longrightarrow> image_inv (complete i s)"
  by (simp add: image_inv_def complete_def remove_nth_all)

lemma image_inv_quiet:
  assumes "serial_inv w s" and "\<not> isAnalyzing s"
  shows "list_all (image_ok c) (pending s)"
  using no_analysis_in_flight [OF assms] by (rule quiet_image_ok)

lemma image_inv_fire:
  assumes "serial_inv w s" and "image_inv s" and "serial w (e # es)" and "enabled e s"
  shows "image_inv (fire e s)"
proof (cases w)
  case True
  with assms(3) obtain i b where e: "e = FileLoaded i b" by (cases e) simp_all
  from True assms(1) have n: "\<not> isAnalyzing s" by (simp add: serial_inv_def)
  from assms(4) e obtain hist where r: "pending s ! i = ReadFile hist"
    by (auto simp: waiting_def is_ReadFile_def split: request.splits)
  from image_inv_quiet [OF assms(1) n, of "Some b"]
  have "list_all (image_ok (Some b)) (remove_nth i (pending s))" by (rule remove_nth_all)
  with e r show ?thesis
    by (simp add: fire_def render_def image_inv_def onloadend_def handleAnalyze_def
        complete_def image_ok_def)
next
  case False
  note q = image_inv_quiet [OF assms(1)]
  from False assms(3) show ?thesis
  proof (cases e)
    case ScanFood
    with assms(4) q [of None] show ?thesis
      by (simp add: fire_def render_def image_inv_def startCamera_def image_ok_def)
  next
    case Retake
    with assms(4) q [of None] show ?thesis
      by (simp add: fire_def render_def image_inv_def startCamera_def retake_def image_ok_def
          Captured_def)
  next
    case NewScan
    with assms(4) q [of None] show ?thesis
      by (simp add: fire_def render_def image_inv_def startCamera_def newScan_def image_ok_def
          Result_def)
  next
    case Cancel
    with assms(2) show ?thesis
      by (simp add: fire_def render_def image_inv_def stopCamera_def)
  next
    case (Capture f)
    from assms(1,4) Capture have n: "\<not> isAnalyzing s" by (simp add: serial_inv_def)
    from Capture assms(2) q [OF n] show ?thesis
      by (simp add: fire_def render_def image_inv_def capturePhoto_def stopCamera_def
          handleAnalyze_def image_ok_def split: option.splits)
  next
    case (ChooseFile f)
    with assms(2) show ?thesis
      by (simp add: fire_def render_def image_inv_def handleFileUpload_def image_ok_def)
  next
    case (FileLoaded i b)
    with assms False show ?thesis by simp
  next
    case (Granted i stream)
    with image_inv_complete [OF assms(2), of i] show ?thesis
      by (simp add: fire_def render_def image_inv_def startCamera_resolved_def)
  next
    case (Denied i)
    with image_inv_complete [OF assms(2), of i] show ?thesis
      by (simp add: fire_def render_def image_inv_def startCamera_rejected_def)
  next
    case (Typed v)
    with assms(2) show ?thesis by (simp add: fire_def render_def image_inv_def)
  next
    case Submit
    with assms(4) have n: "\<not> isAnalyzing s" by (simp add: Idle_def)
    from Submit q [OF n, of None] assms(2) show ?thesis
      by (simp add: fire_def render_def image_inv_def handleManualSearch_def image_ok_def)
  next
    case (ImageResolved i r n1 n2 q')
    with image_inv_complete [OF assms(2), of i] assms(2) show ?thesis
      by (simp add: fire_def render_def image_inv_def handleAnalyze_resolved_def Let_def
          complete_def split: request.splits option.splits)
  next
    case (ImageRejected i err)
    with image_inv_complete [OF assms(2), of i] show ?thesis
      by (simp add: fire_def render_def image_inv_def handleAnalyze_rejected_def)
  next
    case (NameResolved i r)
    with image_inv_complete [OF assms(2), of i] show ?thesis
      by (simp add: fire_def render_def image_inv_def handleManualSearch_resolved_def)
  next
    case (NameRejected i err)
    with image_inv_complete [OF assms(2), of i] show ?thesis
      by (simp add: fire_def render_def image_inv_def handleManualSearch_rejected_def)
  next
    case Dismiss
    with assms(2) show ?thesis by (simp add: fire_def render_def image_inv_def dismiss_def)
  next
    case Clear
    with assms(4) q [of None] show ?thesis
      by (simp add: fire_def render_def image_inv_def clear_def)
  next
    case ToggleHistory
    with assms(2) show ?thesis by (simp add: fire_def render_def image_inv_def)
  next
    case CloseHistory
    with assms(2) show ?thesis by (simp add: fire_def render_def image_inv_def)
  next
    case (Select i)
    with assms False show ?thesis by simp
  next
    case ToggleTheme
    with assms(2) show ?thesis by (simp add: fire_def render_def image_inv_def toggleTheme_def)
  qed
qed

lemma serial_run_invs:
  "serial_inv w s \<Longrightarrow> image_inv s \<Longrightarrow> serial w es \<Longrightarrow> run es s = Some s' \<Longrightarrow>
   (\<exists>w'. serial_inv w' s') \<and> image_inv s'"
proof (induction es arbitrary: w s)
  case Nil
  then show ?case by auto
next
  case (Cons e es)
  from Cons.prems(4) have en: "enabled e s" and r: "run es (fire e s) = Some s'"
    by (auto split: if_splits)
  from serial_inv_fire [OF Cons.prems(1,3) en]
  have a: "serial_inv (reading_after e) (fire e s)" and b: "serial (reading_after e) es"
    by simp_all
  from image_inv_fire [OF Cons.prems(1,2,3) en] have c: "image_inv (fire e s)" .
  from Cons.IH [OF a c b r] show ?case .
qed

lemma serial_reach_image:
  assumes "serial False es" and "run es initial = Some s"
    and "i < length (pending s)" and "pending s ! i = AnalyzeImage img hist"
  shows "capturedImage s = Some img" and "foodData s = None"
proof -
  from serial_run_invs [OF serial_inv_initial image_inv_initial assms(1,2)]
  obtain w where w: "serial_inv w s" and im: "image_inv s" by blast
  from assms(3,4) have "AnalyzeImage img hist \<in> set (pending s)" using nth_mem by force
  with im show "capturedImage s = Some img"
    by (auto simp: image_inv_def list_all_iff image_ok_def)
  from assms(4) have "is_analysis (pending s ! i)" by (simp add: kind_defs)
  from serial_inv_in_flight [OF w assms(3) this] show "foodData s = None" .
qed

section \<open>The claims\<close>

text \<open>
  C1 (amended). Every run of \<open>N\<close> successful image-based analyses, one after the other
  from the initial state (empty history), can be carried out, and afterwards the history
  has length \<open>min N 20\<close>, is ordered newest first (position \<open>i\<close> holds the analysis
  \<open>N - 1 - i\<close>), and for \<open>N > 20\<close> consists of exactly the 20 most recent entries: each
  success prepends one entry and truncates to 20.
\<close>

theorem bounded_history:
  "analyses xs initial \<noteq> None
   \<and> length (history_after xs) = min (length xs) 20
   \<and> history_after xs = take 20 (rev (map entry_of xs))
   \<and> (\<forall>i < length (history_after xs).
         history_after xs ! i = entry_of (xs ! (length xs - 1 - i)))
   \<and> (20 < length xs \<longrightarrow>
         history_after xs = rev (drop (length xs - 20) (map entry_of xs)))"
proof -
  note h = history_after_eq [of xs]
  have len: "length (history_after xs) = min (length xs) 20"
    by (simp add: h min.commute)
  have nth: "\<forall>i < length (history_after xs).
      history_after xs ! i = entry_of (xs ! (length xs - 1 - i))"
    by (auto simp: h rev_nth)
  have last20: "20 < length xs \<longrightarrow>
      history_after xs = rev (drop (length xs - 20) (map entry_of xs))"
    by (simp add: h take_rev)
  from h len nth last20 show ?thesis by blast
qed

text \<open>The theorem at 21 uploads: the history is the last 20 of them, newest first.\<close>

theorem bounded_history_witness:
  "20 < length captures21
   \<and> history_after captures21 = rev (drop (length captures21 - 20) (map entry_of captures21))
   \<and> (0::nat) < length (history_after captures21)
   \<and> history_after captures21 ! 0 = entry_of (captures21 ! (length captures21 - 1 - 0))"
proof -
  have l: "length captures21 = 21" by (simp add: captures21_def)
  note b = bounded_history [of captures21]
  from l have "20 < length captures21" by simp
  moreover from b this
  have "history_after captures21 = rev (drop (length captures21 - 20) (map entry_of captures21))"
    by blast
  moreover from b l have pos: "0 < length (history_after captures21)" by simp
  moreover from b pos
  have "history_after captures21 ! 0 = entry_of (captures21 ! (length captures21 - 1 - 0))"
    by blast
  ultimately show ?thesis by blast
qed

text \<open>
  With \<open>N = 21\<close> the history does not hold the \<open>N\<close> most recent entries: the entry of the
  first analysis is one of them and it is gone.
\<close>

theorem first_of_21_evicted:
  "length captures21 = 21
   \<and> analyses captures21 initial \<noteq> None
   \<and> length (history_after captures21) = 20
   \<and> entry_of (hd captures21) \<notin> set (history_after captures21)"
proof -
  have l: "length captures21 = 21" by (simp add: captures21_def)
  note h = history_after_eq [of captures21]
  have e: "entry_of (hd captures21) \<notin> set (take 20 (rev (map entry_of captures21)))"
    by code_simp
  from l h e show ?thesis by simp
qed

text \<open>
  C2 (amended). The mount effect raises nothing and leaves the history empty when the
  history key is absent or holds the empty string; for any other stored text it does
  what \<open>JSON.parse\<close> does: the parsed value becomes the history, and a text that is not
  JSON makes the effect throw \<open>SyntaxError\<close>. The effect throws in no other case.
\<close>

theorem load_throws_only_on_bad_json:
  "(\<not> truthy savedHistory \<longrightarrow>
      persistence_effect savedHistory savedTheme = Inr (None, savedTheme = Some ''dark'')
      \<and> loaded_history None = JArray [])
   \<and> (\<forall>t. savedHistory = Some t \<and> t \<noteq> [] \<longrightarrow>
        persistence_effect savedHistory savedTheme =
          (case JSON_parse t of
             Inl e \<Rightarrow> Inl e
           | Inr v \<Rightarrow> Inr (Some v, savedTheme = Some ''dark'')))
   \<and> ((\<exists>e. persistence_effect savedHistory savedTheme = Inl e) =
       (\<exists>t. savedHistory = Some t \<and> t \<noteq> [] \<and> JSON_parse t = Inl SyntaxError))"
proof -
  have a: "\<not> truthy savedHistory \<longrightarrow>
      persistence_effect savedHistory savedTheme = Inr (None, savedTheme = Some ''dark'')
      \<and> loaded_history None = JArray []"
    by (simp add: persistence_effect_def loaded_history_def)
  have b: "\<forall>t. savedHistory = Some t \<and> t \<noteq> [] \<longrightarrow>
        persistence_effect savedHistory savedTheme =
          (case JSON_parse t of
             Inl e \<Rightarrow> Inl e
           | Inr v \<Rightarrow> Inr (Some v, savedTheme = Some ''dark''))"
    by (auto simp: persistence_effect_def truthy_def split: sum.splits)
  have c: "(\<exists>e. persistence_effect savedHistory savedTheme = Inl e) =
       (\<exists>t. savedHistory = Some t \<and> t \<noteq> [] \<and> JSON_parse t = Inl SyntaxError)"
  proof (cases savedHistory)
    case None
    then show ?thesis by (simp add: persistence_effect_def truthy_def)
  next
    case (Some t)
    show ?thesis
    proof (cases "JSON_parse t")
      case (Inl e)
      then have "JSON_parse t = Inl SyntaxError" by (cases e) simp
      with Some show ?thesis by (auto simp: persistence_effect_def truthy_def)
    next
      case (Inr v)
      with Some show ?thesis by (auto simp: persistence_effect_def truthy_def)
    qed
  qed
  from a b c show ?thesis by blast
qed

text \<open>
  The theorem at an absent entry, at the text of an empty array, and at a text that is
  valid JSON and no list.
\<close>

theorem load_throws_only_on_bad_json_witness:
  "\<not> truthy None
   \<and> persistence_effect None (Some ''dark'') = Inr (None, True)
   \<and> Some ''[]'' = Some ''[]'' \<and> ''[]'' \<noteq> []
   \<and> persistence_effect (Some ''[]'') None = Inr (Some (JArray []), False)
   \<and> persistence_effect (Some ''42'') None = Inr (Some (JNumber ''42''), False)"
proof -
  have p: "JSON_parse ''[]'' = Inr (JArray [])" "JSON_parse ''42'' = Inr (JNumber ''42'')"
    by code_simp+
  from load_throws_only_on_bad_json [of None "Some ''dark''"]
    load_throws_only_on_bad_json [of "Some ''[]''" None]
    load_throws_only_on_bad_json [of "Some ''42''" None] p
  show ?thesis by (simp add: truthy_def)
qed

text \<open>A stored text that is not JSON: the effect throws, and the theme is not read.\<close>

theorem load_throws_on_malformed:
  "persistence_effect (Some ''{'') (Some ''dark'') = Inl SyntaxError
   \<and> persistence_effect (Some ''not json'') None = Inl SyntaxError"
  by code_simp

text \<open>
  C3 (amended). \<open>startCamera\<close> stops no stream: the streams that are live when it is
  called are live after it and after the stream it asked for has been granted, which
  replaces the one attached to the video element. So a start leaves one live stream
  only when none was live before. What keeps a second start away from an active camera
  is the user interface: in a serial session no start button is on offer while the
  camera is active.
\<close>

theorem start_stops_nothing:
  "liveStreams (startCamera s) = liveStreams s
   \<and> liveStreams (retake s) = liveStreams s
   \<and> liveStreams (newScan s) = liveStreams s
   \<and> liveStreams (startCamera_resolved stream (startCamera s)) = stream # liveStreams s
   \<and> liveStreams (fire (Granted (length (pending s)) stream) (fire ScanFood s))
       = stream # liveStreams s
   \<and> videoRef (fire (Granted (length (pending s)) stream) (fire ScanFood s))
       = Some \<lparr>srcObject = Some stream\<rparr>
   \<and> (liveStreams s = [] \<longrightarrow>
        liveStreams (fire (Granted (length (pending s)) stream) (fire ScanFood s)) = [stream])
   \<and> (serial False es \<and> run es initial = Some s' \<and> isCameraActive s' \<longrightarrow>
        \<not> enabled ScanFood s' \<and> \<not> enabled Retake s' \<and> \<not> enabled NewScan s')"
proof -
  have "liveStreams (startCamera s) = liveStreams s
   \<and> liveStreams (retake s) = liveStreams s
   \<and> liveStreams (newScan s) = liveStreams s
   \<and> liveStreams (startCamera_resolved stream (startCamera s)) = stream # liveStreams s"
    by (simp add: handler_defs)
  moreover have "liveStreams (fire (Granted (length (pending s)) stream) (fire ScanFood s))
       = stream # liveStreams s"
    by (simp add: handler_defs fire_def render_def remove_nth_def)
  moreover have "videoRef (fire (Granted (length (pending s)) stream) (fire ScanFood s))
       = Some \<lparr>srcObject = Some stream\<rparr>"
    by (simp add: handler_defs fire_def render_def remove_nth_def split: option.splits)
  moreover have "serial False es \<and> run es initial = Some s' \<and> isCameraActive s' \<longrightarrow>
        \<not> enabled ScanFood s' \<and> \<not> enabled Retake s' \<and> \<not> enabled NewScan s'"
    using serial_reach serial_inv_no_start by blast
  ultimately show ?thesis by simp
qed

theorem start_stops_nothing_witness:
  "liveStreams initial = []
   \<and> liveStreams (fire (Granted (length (pending initial)) 1) (fire ScanFood initial)) = [1]
   \<and> serial False camera_trace \<and> run camera_trace initial = Some camera_on
   \<and> isCameraActive camera_on
   \<and> \<not> enabled ScanFood camera_on \<and> \<not> enabled Retake camera_on
   \<and> \<not> enabled NewScan camera_on"
proof -
  have a: "serial False camera_trace" by (simp add: camera_trace_def)
  have b: "isCameraActive camera_on" by (simp add: camera_on_eq)
  from start_stops_nothing [of initial 1 camera_trace camera_on] a b camera_trace_run
  show ?thesis by (simp add: initial_def)
qed

text \<open>
  The camera is active with stream 1; a result is selected from the history, New Scan
  is pressed (no stop in between) and stream 2 is granted: both streams are live, and
  only stream 2 is attached to the video element.
\<close>

theorem second_start_two_live_streams:
  "run second_start_trace initial \<noteq> None
   \<and> liveStreams (the (run second_start_trace initial)) = [2, 1]
   \<and> videoRef (the (run second_start_trace initial)) = Some \<lparr>srcObject = Some 2\<rparr>"
  by code_simp

text \<open>
  C4. A manual search with a non-blank input, once its request has succeeded, shows the
  result (the Result mode with the record returned), and the history and its stored copy
  are the ones from before the search.
\<close>

theorem manual_search_keeps_history:
  assumes "trim (manualInput s) \<noteq> []"
  shows "let s1 = fire Submit s;
             s2 = fire (NameResolved (length (pending s)) result) s1
         in pending s1 = pending s @ [AnalyzeName (manualInput s)]
          \<and> enabled (NameResolved (length (pending s)) result) s1
          \<and> Analyzing s1 \<and> Result s2 \<and> foodData s2 = Some result
          \<and> history s1 = history s \<and> history s2 = history s
          \<and> nutrilens_history s2 = nutrilens_history s
          \<and> pending s2 = pending s"
  using assms
  by (simp add: fire_def render_def handler_defs mode_defs waiting_def is_AnalyzeName_def
      remove_nth_def Let_def)

theorem manual_search_keeps_history_witness:
  "trim (manualInput (initial\<lparr>manualInput := ''paneer tikka''\<rparr>)) \<noteq> []
   \<and> Result (fire (NameResolved 0 sample_food)
               (fire Submit (initial\<lparr>manualInput := ''paneer tikka''\<rparr>)))
   \<and> history (fire (NameResolved 0 sample_food)
                (fire Submit (initial\<lparr>manualInput := ''paneer tikka''\<rparr>))) = []"
  using manual_search_keeps_history [of "initial\<lparr>manualInput := ''paneer tikka''\<rparr>" sample_food]
  by (simp add: initial_def trim_def isWhiteSpace_def Let_def)

text \<open>
  C5 (amended). When the request of an image analysis fails with a value that is not
  \<open>null\<close> or \<open>undefined\<close>, the error banner shows a non-empty message, no analysis is
  shown as running, and the history and its stored copy are unchanged; dismissing the
  banner clears the error and nothing else. In a serial session, where the image that
  was analysed is a non-empty data URL, the workflow after the failure and the
  dismissal shows that image with its Retake button (the Captured mode), not the idle
  screen, and the history is still unchanged.
\<close>

theorem failed_image_analysis:
  "(err \<noteq> Nullish \<longrightarrow>
      (let s2 = handleAnalyze_rejected err s
       in Error s2 \<and> error s2 \<noteq> None \<and> error s2 \<noteq> Some [] \<and> \<not> Analyzing s2
        \<and> history s2 = history s \<and> nutrilens_history s2 = nutrilens_history s
        \<and> dismiss s2 = s\<lparr>error := None, isAnalyzing := False\<rparr>))
   \<and> (serial False es \<and> run es initial = Some s' \<and> enabled (ImageRejected i err) s'
       \<and> err \<noteq> Nullish \<and> pending s' ! i = AnalyzeImage img hist \<and> img \<noteq> [] \<longrightarrow>
      (let s2 = fire (ImageRejected i err) s'; s3 = fire Dismiss s2
       in Error s2 \<and> history s2 = history s' \<and> nutrilens_history s2 = nutrilens_history s'
        \<and> enabled Dismiss s2
        \<and> \<not> Error s3 \<and> Captured s3 \<and> \<not> Idle s3 \<and> capturedImage s3 = Some img
        \<and> history s3 = history s' \<and> nutrilens_history s3 = nutrilens_history s'))"
proof -
  have a: "let s2 = handleAnalyze_rejected err s
       in Error s2 \<and> error s2 \<noteq> None \<and> error s2 \<noteq> Some [] \<and> \<not> Analyzing s2
        \<and> history s2 = history s \<and> nutrilens_history s2 = nutrilens_history s
        \<and> dismiss s2 = s\<lparr>error := None, isAnalyzing := False\<rparr>"
    if "err \<noteq> Nullish" for s
  proof -
    from message_or_nonempty [OF that, of "''Failed to analyze image. Please try again.''"]
    obtain m where "message_or err ''Failed to analyze image. Please try again.'' = Some m"
      and "m \<noteq> []" by auto
    then show ?thesis
      by (simp add: handleAnalyze_rejected_def dismiss_def mode_defs truthy_def Let_def)
  qed
  have b: "let s2 = fire (ImageRejected i err) s'; s3 = fire Dismiss s2
       in Error s2 \<and> history s2 = history s' \<and> nutrilens_history s2 = nutrilens_history s'
        \<and> enabled Dismiss s2
        \<and> \<not> Error s3 \<and> Captured s3 \<and> \<not> Idle s3 \<and> capturedImage s3 = Some img
        \<and> history s3 = history s' \<and> nutrilens_history s3 = nutrilens_history s'"
    if "serial False es" and "run es initial = Some s'" and "enabled (ImageRejected i err) s'"
      and "err \<noteq> Nullish" and "pending s' ! i = AnalyzeImage img hist" and "img \<noteq> []"
  proof -
    from that(3) have i: "i < length (pending s')" by (simp add: waiting_def)
    from serial_reach_image [OF that(1,2) i that(5)]
    have c: "capturedImage s' = Some img" and f: "foodData s' = None" .
    from message_or_nonempty [OF that(4), of "''Failed to analyze image. Please try again.''"]
    obtain m where "message_or err ''Failed to analyze image. Please try again.'' = Some m"
      and "m \<noteq> []" by auto
    with c f that(6) show ?thesis
      by (simp add: fire_def render_def handleAnalyze_rejected_def dismiss_def complete_def
          mode_defs truthy_def Let_def)
  qed
  from a b show ?thesis by blast
qed

text \<open>The theorem at a capture whose analysis fails with a value without a message.\<close>

theorem failed_image_analysis_witness:
  "Thrown None \<noteq> Nullish
   \<and> Error (handleAnalyze_rejected (Thrown None) initial)
   \<and> serial False capture_trace
   \<and> run capture_trace initial = Some (the (run capture_trace initial))
   \<and> enabled (ImageRejected 0 (Thrown None)) (the (run capture_trace initial))
   \<and> pending (the (run capture_trace initial)) ! 0 = AnalyzeImage ''data:image/jpeg;base64,AAAA'' []
   \<and> ''data:image/jpeg;base64,AAAA'' \<noteq> []
   \<and> Captured (fire Dismiss (fire (ImageRejected 0 (Thrown None)) (the (run capture_trace initial))))"
proof -
  have a: "serial False capture_trace" by code_simp
  have "run capture_trace initial \<noteq> None" by code_simp
  then have b: "run capture_trace initial = Some (the (run capture_trace initial))" by simp
  have c: "enabled (ImageRejected 0 (Thrown None)) (the (run capture_trace initial))"
    by code_simp
  have d: "pending (the (run capture_trace initial)) ! 0
      = AnalyzeImage ''data:image/jpeg;base64,AAAA'' []"
    by code_simp
  have e: "Thrown None \<noteq> Nullish" by simp
  have f: "''data:image/jpeg;base64,AAAA'' \<noteq> []" by simp
  from failed_image_analysis [of "Thrown None" initial capture_trace
      "the (run capture_trace initial)" 0 "''data:image/jpeg;base64,AAAA''" "[]"] a b c d e f
  show ?thesis by (simp add: Let_def)
qed

text \<open>
  An upload fails and the banner is dismissed: the workflow is not idle, it shows the
  captured image.
\<close>

theorem dismiss_after_failure_not_idle:
  "run upload_trace initial \<noteq> None
   \<and> \<not> Idle (the (run upload_trace initial))
   \<and> Captured (the (run upload_trace initial))
   \<and> error (the (run upload_trace initial)) = None"
  by code_simp

text \<open>
  C6. A capture while the camera view is mounted (the camera is active and the render
  is committed), with a frame encoded: afterwards the camera is not active, the video
  element is gone, the stream that was attached to it is stopped, the captured image is
  the encoded frame, and the workflow is in the Analyzing mode with the request for that
  image in flight.
\<close>

theorem capture_stops_and_analyzes:
  assumes "isCameraActive s" and "render s = s"
  shows "let s' = fire (Capture (Some dataUrl)) s
         in \<not> isCameraActive s' \<and> videoRef s' = None
          \<and> (\<forall>v stream. videoRef s = Some v \<and> srcObject v = Some stream
                 \<longrightarrow> stream \<notin> set (liveStreams s'))
          \<and> capturedImage s' = Some dataUrl
          \<and> Analyzing s' \<and> \<not> CameraActive s'
          \<and> pending s' = pending s @ [AnalyzeImage dataUrl (history s)]
          \<and> enabled (ImageResolved (length (pending s)) r n1 n2 q) s'"
proof -
  from assms(2) have "videoRef (render s) = videoRef s" by simp
  with assms(1) have "videoRef s \<noteq> None"
    by (cases "videoRef s") (simp_all add: render_def)
  then obtain v where v: "videoRef s = Some v" by blast
  show ?thesis
    by (simp add: v fire_def render_def capturePhoto_def stopCamera_def handleAnalyze_def
        mode_defs waiting_def is_AnalyzeImage_def Let_def split: option.splits)
qed

theorem capture_stops_and_analyzes_witness:
  "isCameraActive camera_on \<and> render camera_on = camera_on
   \<and> liveStreams camera_on = [1]
   \<and> \<not> isCameraActive (fire (Capture (Some ''data:image/jpeg;base64,AAAA'')) camera_on)
   \<and> Analyzing (fire (Capture (Some ''data:image/jpeg;base64,AAAA'')) camera_on)
   \<and> liveStreams (fire (Capture (Some ''data:image/jpeg;base64,AAAA'')) camera_on) = []"
proof -
  have a: "isCameraActive camera_on" and b: "render camera_on = camera_on"
    and c: "liveStreams camera_on = [1]"
    by (simp_all add: camera_on_eq render_def initial_def)
  have d: "liveStreams (fire (Capture (Some ''data:image/jpeg;base64,AAAA'')) camera_on) = []"
    by (simp add: camera_on_eq fire_def render_def capturePhoto_def stopCamera_def
        handleAnalyze_def initial_def)
  from capture_stops_and_analyzes [OF a b, of "''data:image/jpeg;base64,AAAA''"] a b c d
  show ?thesis by (simp add: Let_def)
qed

text \<open>
  C7. \<open>stopCamera\<close> is idempotent: a second call changes nothing, as a handler and as
  an event with its render; and with no stream attached to a video element a call stops
  no stream and only resets \<open>isCameraActive\<close>.
\<close>

theorem stopCamera_idempotent:
  "stopCamera (stopCamera s) = stopCamera s
   \<and> fire Cancel (fire Cancel s) = fire Cancel s
   \<and> ((videoRef s = None \<or> (\<exists>v. videoRef s = Some v \<and> srcObject v = None)) \<longrightarrow>
        liveStreams (stopCamera s) = liveStreams s \<and> videoRef (stopCamera s) = videoRef s
        \<and> stopCamera s = s\<lparr>isCameraActive := False\<rparr>)"
  by (auto simp: stopCamera_def fire_def render_def split: option.splits)

theorem stopCamera_idempotent_witness:
  "videoRef initial = None
   \<and> stopCamera initial = initial
   \<and> liveStreams (stopCamera camera_on) = []
   \<and> stopCamera (stopCamera camera_on) = stopCamera camera_on"
  using stopCamera_idempotent [of initial] stopCamera_idempotent [of camera_on]
  by (simp add: initial_def camera_on_eq stopCamera_def)

text \<open>
  C8 (amended). In every state, at most one of Captured, Analyzing and Result is
  active. In every state that a serial session reaches from the initial state (start,
  stop, capture, upload, search, completions, dismiss and clear as the user interface
  offers them, the read of a chosen file completing before the next event, and no
  selection from the history), at most one of CameraActive, Captured, Analyzing and
  Result is active.
\<close>

theorem serial_sessions_exclusive:
  "\<not> (Captured s \<and> Analyzing s) \<and> \<not> (Captured s \<and> Result s) \<and> \<not> (Analyzing s \<and> Result s)
   \<and> (serial False es \<and> run es initial = Some s' \<longrightarrow> active_modes s' \<le> 1)"
proof -
  have "\<not> (Captured s \<and> Analyzing s) \<and> \<not> (Captured s \<and> Result s)
      \<and> \<not> (Analyzing s \<and> Result s)"
    by (auto simp: mode_defs)
  moreover have "serial False es \<and> run es initial = Some s' \<longrightarrow> active_modes s' \<le> 1"
    using serial_inv_run [OF serial_inv_initial] serial_inv_modes by blast
  ultimately show ?thesis by blast
qed

theorem serial_sessions_exclusive_witness:
  "serial False serial_trace
   \<and> run serial_trace initial = Some (the (run serial_trace initial))
   \<and> active_modes (the (run serial_trace initial)) \<le> 1
   \<and> Analyzing (the (run serial_trace initial))"
proof -
  have a: "serial False serial_trace" by code_simp
  have b: "run serial_trace initial \<noteq> None" by code_simp
  then have c: "run serial_trace initial = Some (the (run serial_trace initial))" by simp
  have d: "Analyzing (the (run serial_trace initial))" by code_simp
  from serial_sessions_exclusive [of _ serial_trace "the (run serial_trace initial)"] a c d
  show ?thesis by blast
qed

text \<open>
  Two modes at once. A file is chosen and the camera is started before the file has
  been read: the camera view and the spinner are both active. And with the camera
  active, an entry is selected from the history: the camera view and the results are
  both active.
\<close>

theorem two_modes_at_once:
  "run race_trace initial \<noteq> None
   \<and> CameraActive (the (run race_trace initial)) \<and> Analyzing (the (run race_trace initial))
   \<and> active_modes (the (run race_trace initial)) = 2
   \<and> run select_trace initial \<noteq> None
   \<and> CameraActive (the (run select_trace initial)) \<and> Result (the (run select_trace initial))
   \<and> active_modes (the (run select_trace initial)) = 2"
  by code_simp

text \<open>
  C9 (amended). A failed analysis request, by image or by name, leaves the displayed
  record as it was when the failure arrived; issuing the request does not clear the
  record either, from a capture or from a manual search, only an upload does. In a
  serial session no record is displayed while a request is in flight, so after the
  failure no result is active, whether or not one was displayed before the request was
  issued.
\<close>

theorem failure_keeps_displayed_record:
  "foodData (handleAnalyze_rejected err s) = foodData s
   \<and> foodData (handleManualSearch_rejected err s) = foodData s
   \<and> foodData (handleAnalyze hist img s) = foodData s
   \<and> foodData (handleManualSearch s) = foodData s
   \<and> foodData (capturePhoto frame s) = foodData s
   \<and> foodData (onloadend hist img s) = None
   \<and> Result (handleAnalyze_rejected err s) = (foodData s \<noteq> None)
   \<and> Result (handleManualSearch_rejected err s) = (foodData s \<noteq> None)
   \<and> (serial False es \<and> run es initial = Some s' \<and> enabled (ImageRejected i err) s' \<longrightarrow>
        foodData (fire (ImageRejected i err) s') = None
        \<and> \<not> Result (fire (ImageRejected i err) s'))
   \<and> (serial False es \<and> run es initial = Some s' \<and> enabled (NameRejected i err) s' \<longrightarrow>
        foodData (fire (NameRejected i err) s') = None
        \<and> \<not> Result (fire (NameRejected i err) s'))"
proof -
  have h: "foodData (handleAnalyze_rejected err s) = foodData s
   \<and> foodData (handleManualSearch_rejected err s) = foodData s
   \<and> foodData (handleAnalyze hist img s) = foodData s
   \<and> foodData (handleManualSearch s) = foodData s
   \<and> foodData (capturePhoto frame s) = foodData s
   \<and> foodData (onloadend hist img s) = None
   \<and> Result (handleAnalyze_rejected err s) = (foodData s \<noteq> None)
   \<and> Result (handleManualSearch_rejected err s) = (foodData s \<noteq> None)"
    by (auto simp: handler_defs mode_defs split: option.splits)
  have img: "foodData (fire (ImageRejected i err) s') = None
        \<and> \<not> Result (fire (ImageRejected i err) s')"
    if "serial False es" and "run es initial = Some s'" and "enabled (ImageRejected i err) s'"
  proof -
    from that(1,2) obtain w where w: "serial_inv w s'" using serial_reach by blast
    from that(3) have "i < length (pending s')" and "is_analysis (pending s' ! i)"
      by (simp_all add: waiting_def kind_defs)
    from serial_inv_in_flight [OF w this] show ?thesis
      by (simp add: fire_def render_def handleAnalyze_rejected_def complete_def Result_def)
  qed
  have name: "foodData (fire (NameRejected i err) s') = None
        \<and> \<not> Result (fire (NameRejected i err) s')"
    if "serial False es" and "run es initial = Some s'" and "enabled (NameRejected i err) s'"
  proof -
    from that(1,2) obtain w where w: "serial_inv w s'" using serial_reach by blast
    from that(3) have "i < length (pending s')" and "is_analysis (pending s' ! i)"
      by (simp_all add: waiting_def kind_defs)
    from serial_inv_in_flight [OF w this] show ?thesis
      by (simp add: fire_def render_def handleManualSearch_rejected_def complete_def Result_def)
  qed
  from h img name show ?thesis by blast
qed

text \<open>
  The theorem where a result is displayed, another file is uploaded and its analysis
  fails: no result is active afterwards.
\<close>

theorem failure_keeps_displayed_record_witness:
  "serial False reupload_trace
   \<and> run reupload_trace initial = Some (the (run reupload_trace initial))
   \<and> enabled (ImageRejected 0 (Thrown None)) (the (run reupload_trace initial))
   \<and> \<not> Result (fire (ImageRejected 0 (Thrown None)) (the (run reupload_trace initial)))"
proof -
  have a: "serial False reupload_trace" by code_simp
  have "run reupload_trace initial \<noteq> None" by code_simp
  then have b: "run reupload_trace initial = Some (the (run reupload_trace initial))" by simp
  have c: "enabled (ImageRejected 0 (Thrown None)) (the (run reupload_trace initial))"
    by code_simp
  from failure_keeps_displayed_record
    [of "Thrown None" _ _ _ _ reupload_trace "the (run reupload_trace initial)" 0] a b c
  show ?thesis by blast
qed

text \<open>
  A result from the history is displayed while the camera is active; a frame is
  captured and its analysis fails: the result is still displayed, next to the error.
\<close>

theorem failure_after_selection_shows_result:
  "run select_capture_trace initial \<noteq> None
   \<and> foodData (the (run select_capture_trace initial)) = Some sample_food
   \<and> Result (the (run select_capture_trace initial))
   \<and> Error (the (run select_capture_trace initial))"
  by code_simp

text \<open>
  C10. Submitting the search form with an input that is empty or all white space
  changes nothing: the state, with the requests in flight, is the same. And a request
  by name that \<open>handleManualSearch\<close> issues never carries a text whose trimmed form is
  empty.
\<close>

theorem blank_search_issues_nothing:
  "(list_all isWhiteSpace (manualInput s) \<longrightarrow>
      handleManualSearch s = s \<and> fire Submit s = render s)
   \<and> (\<forall>q. AnalyzeName q \<in> set (pending (handleManualSearch s)) \<and>
           AnalyzeName q \<notin> set (pending s) \<longrightarrow> trim q \<noteq> [])"
  by (auto simp: handleManualSearch_def fire_def trim_blank)

theorem blank_search_issues_nothing_witness:
  "list_all isWhiteSpace (manualInput (initial\<lparr>manualInput := ''   ''\<rparr>))
   \<and> handleManualSearch (initial\<lparr>manualInput := ''   ''\<rparr>) = initial\<lparr>manualInput := ''   ''\<rparr>
   \<and> AnalyzeName ''paneer tikka''
       \<in> set (pending (handleManualSearch (initial\<lparr>manualInput := ''paneer tikka''\<rparr>)))
   \<and> AnalyzeName ''paneer tikka'' \<notin> set (pending (initial\<lparr>manualInput := ''paneer tikka''\<rparr>))
   \<and> trim ''paneer tikka'' \<noteq> []"
  using blank_search_issues_nothing [of "initial\<lparr>manualInput := ''   ''\<rparr>"]
        blank_search_issues_nothing [of "initial\<lparr>manualInput := ''paneer tikka''\<rparr>"]
  by (simp add: isWhiteSpace_def initial_def handleManualSearch_def trim_def)

end
